theory Spec2Isabelle
  imports Main "HOL-Library.Multiset"
begin

section \<open>The catalogue of biblioteca.c as a binary search tree\<close>

text \<open>
  The header biblioteca.h is not part of the sources. The two structures are
  read off their uses in biblioteca.c: a node \<open>Livro\<close> carries the fields
  \<open>id\<close>, \<open>titulo\<close>, \<open>autor\<close>, \<open>disponivel\<close> and the links \<open>esq\<close> and \<open>dir\<close>;
  a \<open>Biblioteca\<close> carries the pointer \<open>raiz\<close>.

  The data fields of a node are the record \<open>livro\<close> (the field \<open>id\<close> is called
  \<open>ident\<close>, since \<open>id\<close> is the identity function of HOL). Identifiers and the
  flag \<open>disponivel\<close> are C ints, written to a file with the conversion \<open>%d\<close>;
  no arithmetic is done on them, so they are mathematical integers here, and
  the one place that makes an int of digits, \<open>%d\<close> of \<open>sscanf\<close>, stores an
  integer of the range of int.
  Strings are the contents of the NUL-terminated buffers, without the NUL.
  A pointer to a node is the subtree rooted there, \<open>NULL\<close> is \<open>Nulo\<close>.
  Allocation is taken to succeed, and the strings a caller passes to
  \<open>inserirLivro\<close> are taken to fit the buffers of a node, whose sizes are
  defined in the absent header.
\<close>

record livro =
  ident :: int
  titulo :: string
  autor :: string
  disponivel :: int

datatype arvore = Nulo | No arvore livro arvore

record biblioteca =
  raiz :: arvore

definition criarBiblioteca :: biblioteca where
  "criarBiblioteca = \<lparr>raiz = Nulo\<rparr>"

definition criarLivro :: "int \<Rightarrow> string \<Rightarrow> string \<Rightarrow> arvore" where
  "criarLivro i t a = No Nulo \<lparr>ident = i, titulo = t, autor = a, disponivel = 1\<rparr> Nulo"

fun inserirLivroRecursivo :: "arvore \<Rightarrow> int \<Rightarrow> string \<Rightarrow> string \<Rightarrow> arvore" where
  "inserirLivroRecursivo Nulo i t a = criarLivro i t a"
| "inserirLivroRecursivo (No esq b dir) i t a =
     (if i < ident b then No (inserirLivroRecursivo esq i t a) b dir
      else if i > ident b then No esq b (inserirLivroRecursivo dir i t a)
      else No esq b dir)"

definition inserirLivro :: "biblioteca \<Rightarrow> int \<Rightarrow> string \<Rightarrow> string \<Rightarrow> biblioteca" where
  "inserirLivro bib i t a = bib\<lparr>raiz := inserirLivroRecursivo (raiz bib) i t a\<rparr>"

fun buscarLivroRecursivo :: "arvore \<Rightarrow> int \<Rightarrow> arvore" where
  "buscarLivroRecursivo Nulo i = Nulo"
| "buscarLivroRecursivo (No esq b dir) i =
     (if ident b = i then No esq b dir
      else if i < ident b then buscarLivroRecursivo esq i
      else buscarLivroRecursivo dir i)"

definition buscarLivro :: "biblioteca \<Rightarrow> int \<Rightarrow> arvore" where
  "buscarLivro bib i = buscarLivroRecursivo (raiz bib) i"

text \<open>The record a node pointer gives access to; nothing for \<open>NULL\<close>.\<close>

fun registro :: "arvore \<Rightarrow> livro option" where
  "registro Nulo = None"
| "registro (No esq b dir) = Some b"

fun encontrarMenor :: "arvore \<Rightarrow> arvore" where
  "encontrarMenor Nulo = Nulo"
| "encontrarMenor (No Nulo b dir) = No Nulo b dir"
| "encontrarMenor (No (No e c d) b dir) = encontrarMenor (No e c d)"

text \<open>
  In the case of two children \<open>encontrarMenor\<close> is called on a right subtree
  that is not \<open>NULL\<close>, so it returns a node (lemma \<open>encontrarMenor_No\<close> below);
  the branch for \<open>Nulo\<close> is never taken and leaves the node as it is.
\<close>

fun removerLivroRecursivo :: "arvore \<Rightarrow> int \<Rightarrow> arvore" where
  "removerLivroRecursivo Nulo i = Nulo"
| "removerLivroRecursivo (No esq b dir) i =
     (if i < ident b then No (removerLivroRecursivo esq i) b dir
      else if i > ident b then No esq b (removerLivroRecursivo dir i)
      else if esq = Nulo then dir
      else if dir = Nulo then esq
      else (case encontrarMenor dir of
              Nulo \<Rightarrow> No esq b dir
            | No e temp d \<Rightarrow> No esq temp (removerLivroRecursivo dir (ident temp))))"

definition removerLivro :: "biblioteca \<Rightarrow> int \<Rightarrow> biblioteca" where
  "removerLivro bib i = bib\<lparr>raiz := removerLivroRecursivo (raiz bib) i\<rparr>"

text \<open>
  \<open>listarLivrosRecursivo\<close> prints one block per node, left subtree first, then
  the node, then the right subtree; the model returns the records in the order
  in which their blocks are printed.
\<close>

fun listarLivrosRecursivo :: "arvore \<Rightarrow> livro list" where
  "listarLivrosRecursivo Nulo = []"
| "listarLivrosRecursivo (No esq b dir) =
     listarLivrosRecursivo esq @ [b] @ listarLivrosRecursivo dir"

fun contarLivros :: "arvore \<Rightarrow> int" where
  "contarLivros Nulo = 0"
| "contarLivros (No esq b dir) = 1 + contarLivros esq + contarLivros dir"

subsection \<open>Borrowing and returning\<close>

text \<open>
  \<open>emprestarLivro\<close> and \<open>devolverLivro\<close> write the field \<open>disponivel\<close> through
  the pointer that \<open>buscarLivro\<close> returned. On the tree as a value this is the
  update of the node at the end of the search path: \<open>gravarDisponivel\<close> follows
  the comparisons of \<open>buscarLivroRecursivo\<close> and stores at the node where the
  search stops. The message each function prints is its outcome.
\<close>

fun gravarDisponivel :: "arvore \<Rightarrow> int \<Rightarrow> int \<Rightarrow> arvore" where
  "gravarDisponivel Nulo i v = Nulo"
| "gravarDisponivel (No esq b dir) i v =
     (if ident b = i then No esq (b\<lparr>disponivel := v\<rparr>) dir
      else if i < ident b then No (gravarDisponivel esq i v) b dir
      else No esq b (gravarDisponivel dir i v))"

datatype mensagem =
    EmprestadoComSucesso
  | NaoDisponivel
  | NaoEncontrado
  | DevolvidoComSucesso
  | JaDisponivel

definition emprestarLivro :: "biblioteca \<Rightarrow> int \<Rightarrow> biblioteca \<times> mensagem" where
  "emprestarLivro bib i =
     (case buscarLivro bib i of
        Nulo \<Rightarrow> (bib, NaoEncontrado)
      | No esq b dir \<Rightarrow>
          if disponivel b \<noteq> 0
          then (bib\<lparr>raiz := gravarDisponivel (raiz bib) i 0\<rparr>, EmprestadoComSucesso)
          else (bib, NaoDisponivel))"

definition devolverLivro :: "biblioteca \<Rightarrow> int \<Rightarrow> biblioteca \<times> mensagem" where
  "devolverLivro bib i =
     (case buscarLivro bib i of
        Nulo \<Rightarrow> (bib, NaoEncontrado)
      | No esq b dir \<Rightarrow>
          if disponivel b = 0
          then (bib\<lparr>raiz := gravarDisponivel (raiz bib) i 1\<rparr>, DevolvidoComSucesso)
          else (bib, JaDisponivel))"

subsection \<open>The search-tree invariant\<close>

definition ids :: "arvore \<Rightarrow> int set" where
  "ids t = set (map ident (listarLivrosRecursivo t))"

fun abb :: "arvore \<Rightarrow> bool" where
  "abb Nulo = True"
| "abb (No esq b dir) =
     (abb esq \<and> abb dir \<and> (\<forall>x \<in> ids esq. x < ident b) \<and> (\<forall>x \<in> ids dir. ident b < x))"

subsection \<open>What a search finds, and a sequence of insertions\<close>

text \<open>
  \<open>achar t i\<close> is the record of the node that \<open>buscarLivroRecursivo\<close> returns
  for \<open>i\<close>. \<open>inserirTodos\<close> calls \<open>inserirLivro\<close> for each element of a list
  in turn, and \<open>novo\<close> is the record a successful insertion creates.
\<close>

definition achar :: "arvore \<Rightarrow> int \<Rightarrow> livro option" where
  "achar t i = registro (buscarLivroRecursivo t i)"

definition inserirTodos :: "biblioteca \<Rightarrow> (int \<times> string \<times> string) list \<Rightarrow> biblioteca" where
  "inserirTodos bib xs = foldl (\<lambda>b (i, s, a). inserirLivro b i s a) bib xs"

definition novo :: "int \<times> string \<times> string \<Rightarrow> livro" where
  "novo x = (case x of (i, s, a) \<Rightarrow> \<lparr>ident = i, titulo = s, autor = a, disponivel = 1\<rparr>)"

section \<open>Saving and loading\<close>

subsection \<open>The conversions of fprintf and sscanf\<close>

text \<open>
  \<open>%d\<close> of \<open>fprintf\<close> writes an int in decimal, with a minus sign when negative;
  \<open>%s\<close> writes the string.
\<close>

definition digito :: "nat \<Rightarrow> char" where
  "digito d = char_of (48 + d)"

fun digitos :: "nat \<Rightarrow> string" where
  "digitos n = (if n < 10 then [digito n] else digitos (n div 10) @ [digito (n mod 10)])"

definition mostrar_int :: "int \<Rightarrow> string" where
  "mostrar_int k = (if k < 0 then CHR ''-'' # digitos (nat (- k)) else digitos (nat k))"

definition nova_linha :: char where
  "nova_linha = CHR 0x0A"

text \<open>The line written by \<open>fprintf(arquivo, "%d|%s|%s|%d\n", ...)\<close> for one node.\<close>

definition fprintf_livro :: "livro \<Rightarrow> string" where
  "fprintf_livro b =
     mostrar_int (ident b) @ ''|'' @ titulo b @ ''|'' @ autor b @ ''|''
       @ mostrar_int (disponivel b) @ [nova_linha]"

text \<open>
  \<open>%d\<close> of \<open>sscanf\<close> skips white space, accepts one sign and reads the longest
  run of decimal digits; it fails when there is no digit. The value is stored
  in an int. The C standard leaves the result of a numeral outside the range
  of int undefined; the model stores what the C library stores: the digits
  are converted as by \<open>strtol\<close>, which stops at the ends of the range of long
  (64 bits), and the long is stored as an int (32 bits), which keeps its low
  32 bits. So \<open>2147483648\<close> is stored as \<open>-2147483648\<close> and \<open>4294967296\<close> as 0.
  \<open>faixa_int\<close> is the range of int, on which nothing is lost.
  \<open>%[^|]\<close> reads the longest run of characters other than \<open>|\<close> and fails when
  the run is empty. Each conversion returns the value and the rest of the input.
\<close>

definition para_long :: "int \<Rightarrow> int" where
  "para_long k = max (- (2 ^ 63)) (min (2 ^ 63 - 1) k)"

definition para_int :: "int \<Rightarrow> int" where
  "para_int k = (k + 2 ^ 31) mod 2 ^ 32 - 2 ^ 31"

definition faixa_int :: "int \<Rightarrow> bool" where
  "faixa_int k = (- (2 ^ 31) \<le> k \<and> k < 2 ^ 31)"

definition isspace :: "char \<Rightarrow> bool" where
  "isspace c = (c \<in> {CHR '' '', CHR 0x09, CHR 0x0A, CHR 0x0B, CHR 0x0C, CHR 0x0D})"

definition isdigit :: "char \<Rightarrow> bool" where
  "isdigit c = (48 \<le> (of_char c :: nat) \<and> (of_char c :: nat) \<le> 57)"

definition valor :: "char \<Rightarrow> nat" where
  "valor c = of_char c - 48"

fun ler_digitos :: "nat \<Rightarrow> string \<Rightarrow> nat \<times> string" where
  "ler_digitos acc [] = (acc, [])"
| "ler_digitos acc (c # cs) =
     (if isdigit c then ler_digitos (10 * acc + valor c) cs else (acc, c # cs))"

fun ler_sem_sinal :: "string \<Rightarrow> (nat \<times> string) option" where
  "ler_sem_sinal [] = None"
| "ler_sem_sinal (c # cs) = (if isdigit c then Some (ler_digitos 0 (c # cs)) else None)"

definition scan_d :: "string \<Rightarrow> (int \<times> string) option" where
  "scan_d s =
     (case dropWhile isspace s of
        [] \<Rightarrow> None
      | c # cs \<Rightarrow>
          if c = CHR ''-'' then
            (case ler_sem_sinal cs of
               None \<Rightarrow> None
             | Some (n, r) \<Rightarrow> Some (para_int (para_long (- int n)), r))
          else if c = CHR ''+'' then
            (case ler_sem_sinal cs of
               None \<Rightarrow> None
             | Some (n, r) \<Rightarrow> Some (para_int (para_long (int n)), r))
          else
            (case ler_sem_sinal (c # cs) of
               None \<Rightarrow> None
             | Some (n, r) \<Rightarrow> Some (para_int (para_long (int n)), r)))"

definition scan_ate_barra :: "string \<Rightarrow> (string \<times> string) option" where
  "scan_ate_barra s =
     (let campo = takeWhile (\<lambda>c. c \<noteq> CHR ''|'') s
      in if campo = [] then None else Some (campo, dropWhile (\<lambda>c. c \<noteq> CHR ''|'') s))"

text \<open>What \<open>sscanf\<close> sees of the buffer \<open>linha\<close>: the characters before the first NUL.\<close>

definition c_str :: "string \<Rightarrow> string" where
  "c_str s = takeWhile (\<lambda>c. c \<noteq> CHR 0x00) s"

subsection \<open>sscanf on one line\<close>

text \<open>
  \<open>sscanf(linha, "%d|%[^|]|%[^|]|%d", &id, titulo, autor, &disponivel)\<close> stores each
  converted field at once and stops at the first conversion or literal \<open>|\<close>
  that does not match; the locals of the fields it did not reach keep their
  contents. The four locals are held in a record of type \<open>livro\<close>. The result
  is the locals after the call and the number of fields stored (the return
  value, which \<open>carregarLivros\<close> does not read; \<open>EOF\<close> is counted as 0).

  \<open>%[^|]\<close> has no width: a field of \<open>MAX_TITULO\<close> characters or more overruns
  \<open>titulo\<close>, and likewise \<open>autor\<close>. The two constants are defined in the absent
  header and are the parameters \<open>max_titulo\<close> and \<open>max_autor\<close>; an overrun is
  the outcome \<open>EstouroDeBuffer\<close>.
\<close>

datatype erro = EstouroDeBuffer

definition sscanf_linha :: "nat \<Rightarrow> nat \<Rightarrow> livro \<Rightarrow> string \<Rightarrow> erro + (livro \<times> nat)" where
  "sscanf_linha max_titulo max_autor v linha =
     (case scan_d (c_str linha) of
        None \<Rightarrow> Inr (v, 0)
      | Some (i, r1) \<Rightarrow>
          let v1 = v\<lparr>ident := i\<rparr> in
          (case r1 of
             [] \<Rightarrow> Inr (v1, 1)
           | c1 # r2 \<Rightarrow>
               if c1 \<noteq> CHR ''|'' then Inr (v1, 1)
               else (case scan_ate_barra r2 of
                  None \<Rightarrow> Inr (v1, 1)
                | Some (t, r3) \<Rightarrow>
                    if max_titulo \<le> length t then Inl EstouroDeBuffer
                    else
                      let v2 = v1\<lparr>titulo := t\<rparr> in
                      (case r3 of
                         [] \<Rightarrow> Inr (v2, 2)
                       | c2 # r4 \<Rightarrow>
                           if c2 \<noteq> CHR ''|'' then Inr (v2, 2)
                           else (case scan_ate_barra r4 of
                              None \<Rightarrow> Inr (v2, 2)
                            | Some (a, r5) \<Rightarrow>
                                if max_autor \<le> length a then Inl EstouroDeBuffer
                                else
                                  let v3 = v2\<lparr>autor := a\<rparr> in
                                  (case r5 of
                                     [] \<Rightarrow> Inr (v3, 3)
                                   | c3 # r6 \<Rightarrow>
                                       if c3 \<noteq> CHR ''|'' then Inr (v3, 3)
                                       else (case scan_d r6 of
                                          None \<Rightarrow> Inr (v3, 3)
                                        | Some (d, r7) \<Rightarrow>
                                            Inr (v3\<lparr>disponivel := d\<rparr>, 4))))))))"

subsection \<open>Saving in balanced order\<close>

text \<open>
  \<open>armazenarLivrosEmOrdem\<close> stores the nodes at \<open>vetor[0]\<close>, \<open>vetor[1]\<close>, ... in
  the order left subtree, node, right subtree; \<open>pos\<close> starts at 0 and moves by
  one at each store. The model carries the slots filled so far as a list, of
  which \<open>pos\<close> is the length, so that \<open>vetor[(*pos)++] = raiz\<close> appends.
\<close>

fun armazenarLivrosEmOrdem :: "arvore \<Rightarrow> livro list \<Rightarrow> livro list" where
  "armazenarLivrosEmOrdem Nulo vetor = vetor"
| "armazenarLivrosEmOrdem (No esq b dir) vetor =
     armazenarLivrosEmOrdem dir (armazenarLivrosEmOrdem esq vetor @ [b])"

text \<open>
  The file being written is the string of the characters written so far.
  \<open>salvarLivrosBalanceado\<close> calls \<open>salvarBalanceadoRecursivo\<close> with
  \<open>0 \<le> inicio\<close> and \<open>fim < n\<close>, which every recursive call keeps; there the
  division of C and \<open>div\<close> agree and \<open>vetor[meio]\<close> is a slot that was filled.
\<close>

function salvarBalanceadoRecursivo :: "livro list \<Rightarrow> int \<Rightarrow> int \<Rightarrow> string \<Rightarrow> string" where
  "salvarBalanceadoRecursivo vetor inicio fim arquivo =
     (if inicio \<le> fim then
        let meio = (inicio + fim) div 2;
            livro = vetor ! nat meio;
            arquivo1 = arquivo @ fprintf_livro livro;
            arquivo2 = salvarBalanceadoRecursivo vetor inicio (meio - 1) arquivo1
        in salvarBalanceadoRecursivo vetor (meio + 1) fim arquivo2
      else arquivo)"
  by pat_completeness auto
termination
  by (relation "measure (\<lambda>(vetor, inicio, fim, arquivo). nat (fim - inicio + 1))") auto

definition salvarLivrosBalanceado :: "arvore \<Rightarrow> string \<Rightarrow> string" where
  "salvarLivrosBalanceado t arquivo =
     (let n = contarLivros t;
          vetor = armazenarLivrosEmOrdem t []
      in salvarBalanceadoRecursivo vetor 0 (n - 1) arquivo)"

definition salvarLivros :: "arvore \<Rightarrow> string \<Rightarrow> string" where
  "salvarLivros t arquivo = salvarLivrosBalanceado t arquivo"

subsection \<open>Loading\<close>

text \<open>
  \<open>fgets(linha, n, arquivo)\<close> reads at most \<open>n - 1\<close> characters and stops after a
  newline; it returns \<open>NULL\<close> when the file is at its end. The file being read
  is the string of the characters not read yet.
\<close>

fun ler_ate :: "nat \<Rightarrow> string \<Rightarrow> string \<times> string" where
  "ler_ate 0 s = ([], s)"
| "ler_ate (Suc k) [] = ([], [])"
| "ler_ate (Suc k) (c # cs) =
     (if c = nova_linha then ([c], cs)
      else (case ler_ate k cs of (l, r) \<Rightarrow> (c # l, r)))"

definition fgets :: "nat \<Rightarrow> string \<Rightarrow> (string \<times> string) option" where
  "fgets n arquivo = (if arquivo = [] then None else Some (ler_ate (n - 1) arquivo))"

text \<open>
  The body of the loop of \<open>carregarLivros\<close>: \<open>sscanf\<close>, \<open>inserirLivro\<close>,
  \<open>buscarLivro\<close> and the store of \<open>disponivel\<close> in the node found. The value
  of \<open>sscanf\<close> is not tested.
\<close>

definition processarLinha ::
  "nat \<Rightarrow> nat \<Rightarrow> livro \<Rightarrow> biblioteca \<Rightarrow> string \<Rightarrow> erro + (livro \<times> biblioteca)" where
  "processarLinha max_titulo max_autor v bib linha =
     (case sscanf_linha max_titulo max_autor v linha of
        Inl e \<Rightarrow> Inl e
      | Inr (v', n) \<Rightarrow>
          let bib1 = inserirLivro bib (ident v') (titulo v') (autor v') in
          (case buscarLivro bib1 (ident v') of
             Nulo \<Rightarrow> Inr (v', bib1)
           | No esq b dir \<Rightarrow>
               Inr (v', bib1\<lparr>raiz := gravarDisponivel (raiz bib1) (ident v') (disponivel v')\<rparr>)))"

lemma ler_ate_menor: "0 < k \<Longrightarrow> s \<noteq> [] \<Longrightarrow> ler_ate k s = (l, r) \<Longrightarrow> length r < length s"
proof (induction k s arbitrary: l r rule: ler_ate.induct)
  case (1 s)
  then show ?case by simp
next
  case (2 k)
  then show ?case by simp
next
  case (3 k c cs)
  show ?case
  proof (cases "c = nova_linha")
    case True
    with 3 show ?thesis by auto
  next
    case False
    obtain l' r' where lr: "ler_ate k cs = (l', r')" by fastforce
    have "length r' \<le> length cs"
    proof (cases "0 < k \<and> cs \<noteq> []")
      case True
      with 3 False lr show ?thesis by fastforce
    next
      case False
      with lr show ?thesis by (cases k) auto
    qed
    with 3 False lr show ?thesis by auto
  qed
qed

lemma fgets_menor: "fgets 256 arquivo = Some (linha, resto) \<Longrightarrow> length resto < length arquivo"
  by (auto simp: fgets_def split: if_splits dest: ler_ate_menor [rotated 2])

function carregar_laco ::
  "nat \<Rightarrow> nat \<Rightarrow> string \<Rightarrow> livro \<Rightarrow> biblioteca \<Rightarrow> erro + biblioteca" where
  "carregar_laco max_titulo max_autor arquivo v bib =
     (case fgets 256 arquivo of
        None \<Rightarrow> Inr bib
      | Some (linha, resto) \<Rightarrow>
          (case processarLinha max_titulo max_autor v bib linha of
             Inl e \<Rightarrow> Inl e
           | Inr (v', bib') \<Rightarrow> carregar_laco max_titulo max_autor resto v' bib'))"
  by pat_completeness auto
termination
  by (relation "measure (\<lambda>(max_titulo, max_autor, arquivo, v, bib). length arquivo)")
     (auto dest: fgets_menor)

text \<open>
  \<open>carregarLivros\<close>: the file is \<open>None\<close> when \<open>fopen\<close> fails. The locals are not
  initialised in C; their contents at entry are the argument \<open>v0\<close>. One
  message is printed on either path.
\<close>

datatype aviso = ErroAoAbrirArquivo | LivrosCarregados

definition carregarLivros ::
  "nat \<Rightarrow> nat \<Rightarrow> livro \<Rightarrow> biblioteca \<Rightarrow> string option \<Rightarrow> erro + (biblioteca \<times> aviso)" where
  "carregarLivros max_titulo max_autor v0 bib arquivo =
     (case arquivo of
        None \<Rightarrow> Inr (bib, ErroAoAbrirArquivo)
      | Some conteudo \<Rightarrow>
          (case carregar_laco max_titulo max_autor conteudo v0 bib of
             Inl e \<Rightarrow> Inl e
           | Inr bib' \<Rightarrow> Inr (bib', LivrosCarregados)))"

subsection \<open>Records that a saved line gives back\<close>

text \<open>
  A field of a line can be read back when it is not empty and holds no \<open>|\<close>,
  no newline and no NUL. A record can be read back when both its strings are
  such fields, fit the buffers of \<open>carregarLivros\<close>, its line fits the 255
  characters one \<open>fgets\<close> reads, and its identifier and its flag are values
  of an int, as those of every node are in C. The line of a record is read as one line
  when it has at most 255 characters and neither string holds a newline.
  \<open>registrar bib v\<close> is the catalogue after the calls of one iteration of
  the loop with the locals \<open>v\<close>: the insertion, and the store of \<open>disponivel\<close>
  in the node with that identifier.
\<close>

definition campo_ok :: "string \<Rightarrow> bool" where
  "campo_ok s = (s \<noteq> [] \<and> CHR ''|'' \<notin> set s \<and> nova_linha \<notin> set s \<and> CHR 0x00 \<notin> set s)"

definition registro_ok :: "nat \<Rightarrow> nat \<Rightarrow> livro \<Rightarrow> bool" where
  "registro_ok max_titulo max_autor b =
     (campo_ok (titulo b) \<and> campo_ok (autor b)
      \<and> length (titulo b) < max_titulo \<and> length (autor b) < max_autor
      \<and> length (fprintf_livro b) \<le> 255
      \<and> faixa_int (ident b) \<and> faixa_int (disponivel b))"


definition registrar :: "biblioteca \<Rightarrow> livro \<Rightarrow> biblioteca" where
  "registrar bib v =
     bib\<lparr>raiz := gravarDisponivel
                    (inserirLivroRecursivo (raiz bib) (ident v) (titulo v) (autor v))
                    (ident v) (disponivel v)\<rparr>"

section \<open>Properties of the tree operations\<close>

lemma ids_Nulo [simp]: "ids Nulo = {}"
  by (simp add: ids_def)

lemma ids_No [simp]: "ids (No esq b dir) = insert (ident b) (ids esq \<union> ids dir)"
  by (auto simp: ids_def)

lemma remover_ausente: "i \<notin> ids t \<Longrightarrow> removerLivroRecursivo t i = t"
  by (induction t) auto

lemma ids_inserir: "ids (inserirLivroRecursivo t i s a) = insert i (ids t)"
  by (induction t) (auto simp: criarLivro_def)

lemma abb_inserir: "abb t \<Longrightarrow> abb (inserirLivroRecursivo t i s a)"
  by (induction t) (auto simp: criarLivro_def ids_inserir)

lemma encontrarMenor_No: "t \<noteq> Nulo \<Longrightarrow> \<exists>e c d. encontrarMenor t = No e c d"
  by (induction t rule: encontrarMenor.induct) auto

lemma encontrarMenor_ids: "encontrarMenor t = No e c d \<Longrightarrow> ident c \<in> ids t"
  by (induction t rule: encontrarMenor.induct) auto

lemma encontrarMenor_min: "abb t \<Longrightarrow> encontrarMenor t = No e c d \<Longrightarrow> x \<in> ids t \<Longrightarrow> ident c \<le> x"
proof (induction t rule: encontrarMenor.induct)
  case 1
  then show ?case by simp
next
  case (2 b dir)
  then show ?case by auto
next
  case (3 e' c' d' b dir)
  have m: "encontrarMenor (No e' c' d') = No e c d" using 3(3) by simp
  have cin: "ident c \<in> ids (No e' c' d')" using m by (rule encontrarMenor_ids)
  have lt: "ident c < ident b" using 3(2) cin by auto
  show ?case
  proof (cases "x \<in> ids (No e' c' d')")
    case True
    with 3 m show ?thesis by simp
  next
    case False
    with 3(4) have "x = ident b \<or> x \<in> ids dir" by auto
    with 3(2) lt show ?thesis by fastforce
  qed
qed

lemma ids_remover: "abb t \<Longrightarrow> ids (removerLivroRecursivo t i) = ids t - {i}"
proof (induction t i rule: removerLivroRecursivo.induct)
  case (1 i)
  then show ?case by simp
next
  case (2 esq b dir i)
  show ?case
  proof (cases "i < ident b")
    case True
    with 2 show ?thesis by auto
  next
    case nlt: False
    show ?thesis
    proof (cases "i > ident b")
      case True
      with 2 nlt show ?thesis by auto
    next
      case False
      with nlt have eq: "i = ident b" by simp
      show ?thesis
      proof (cases "esq = Nulo \<or> dir = Nulo")
        case True
        with 2 eq show ?thesis by auto
      next
        case False
        then obtain e c d where m: "encontrarMenor dir = No e c d"
          using encontrarMenor_No by blast
        have cin: "ident c \<in> ids dir" using m by (rule encontrarMenor_ids)
        have "ids (removerLivroRecursivo dir (ident c)) = ids dir - {ident c}"
          using 2 False eq m by auto
        with 2 eq False m cin show ?thesis by auto
      qed
    qed
  qed
qed

lemma abb_remover: "abb t \<Longrightarrow> abb (removerLivroRecursivo t i)"
proof (induction t i rule: removerLivroRecursivo.induct)
  case (1 i)
  then show ?case by simp
next
  case (2 esq b dir i)
  show ?case
  proof (cases "i < ident b")
    case True
    with 2 show ?thesis by (auto simp: ids_remover)
  next
    case nlt: False
    show ?thesis
    proof (cases "i > ident b")
      case True
      with 2 nlt show ?thesis by (auto simp: ids_remover)
    next
      case False
      with nlt have eq: "i = ident b" by simp
      show ?thesis
      proof (cases "esq = Nulo \<or> dir = Nulo")
        case True
        with 2 eq show ?thesis by auto
      next
        case False
        then obtain e c d where m: "encontrarMenor dir = No e c d"
          using encontrarMenor_No by blast
        have cin: "ident c \<in> ids dir" using m by (rule encontrarMenor_ids)
        have mn: "\<forall>x \<in> ids dir. ident c \<le> x"
          using encontrarMenor_min [OF _ m] 2(4) by auto
        have a: "abb (removerLivroRecursivo dir (ident c))"
          using 2 False eq m by auto
        have s: "ids (removerLivroRecursivo dir (ident c)) = ids dir - {ident c}"
          using 2(4) by (simp add: ids_remover)
        have "\<forall>x \<in> ids esq. x < ident c" using 2(4) cin by fastforce
        moreover have "\<forall>x \<in> ids dir - {ident c}. ident c < x" using mn by fastforce
        ultimately show ?thesis using 2(4) eq False m a s by auto
      qed
    qed
  qed
qed

lemma contar_remover:
  "abb t \<Longrightarrow> i \<in> ids t \<Longrightarrow> contarLivros (removerLivroRecursivo t i) = contarLivros t - 1"
proof (induction t i rule: removerLivroRecursivo.induct)
  case (1 i)
  then show ?case by simp
next
  case (2 esq b dir i)
  show ?case
  proof (cases "i < ident b")
    case True
    with 2 show ?thesis by fastforce
  next
    case nlt: False
    show ?thesis
    proof (cases "i > ident b")
      case True
      with 2 nlt show ?thesis by fastforce
    next
      case False
      with nlt have eq: "i = ident b" by simp
      show ?thesis
      proof (cases "esq = Nulo \<or> dir = Nulo")
        case True
        with 2 eq show ?thesis by auto
      next
        case False
        then obtain e c d where m: "encontrarMenor dir = No e c d"
          using encontrarMenor_No by blast
        have cin: "ident c \<in> ids dir" using m by (rule encontrarMenor_ids)
        have "contarLivros (removerLivroRecursivo dir (ident c)) = contarLivros dir - 1"
          using 2 False eq m cin by auto
        with 2 eq False m cin show ?thesis by auto
      qed
    qed
  qed
qed

lemma buscar_Nulo_iff: "abb t \<Longrightarrow> buscarLivroRecursivo t i = Nulo \<longleftrightarrow> i \<notin> ids t"
  by (induction t) auto

lemma buscar_ident: "buscarLivroRecursivo t i = No e c d \<Longrightarrow> ident c = i"
  by (induction t) (auto split: if_splits)

lemma inserir_presente: "buscarLivroRecursivo t i \<noteq> Nulo \<Longrightarrow> inserirLivroRecursivo t i s a = t"
  by (induction t) (auto split: if_splits)

lemma achar_Nulo [simp]: "achar Nulo i = None"
  by (simp add: achar_def)

lemma achar_No:
  "achar (No esq b dir) i =
     (if ident b = i then Some b else if i < ident b then achar esq i else achar dir i)"
  by (simp add: achar_def)

lemma achar_inserir:
  "achar (inserirLivroRecursivo t i s a) j =
     (if j = i \<and> achar t i = None
      then Some \<lparr>ident = i, titulo = s, autor = a, disponivel = 1\<rparr>
      else achar t j)"
  by (induction t) (auto simp: achar_No criarLivro_def)

lemma achar_gravar:
  "achar (gravarDisponivel t i v) j =
     (if j = i then map_option (\<lambda>b. b\<lparr>disponivel := v\<rparr>) (achar t i) else achar t j)"
  by (induction t) (auto simp: achar_No)

lemma ids_gravar [simp]: "ids (gravarDisponivel t i v) = ids t"
  by (induction t) auto

lemma abb_gravar: "abb t \<Longrightarrow> abb (gravarDisponivel t i v)"
  by (induction t) auto

lemma contar_gravar [simp]: "contarLivros (gravarDisponivel t i v) = contarLivros t"
  by (induction t) auto

lemma achar_None_iff: "abb t \<Longrightarrow> achar t i = None \<longleftrightarrow> i \<notin> ids t"
  by (induction t) (auto simp: achar_No)

lemma achar_ident: "achar t i = Some b \<Longrightarrow> ident b = i"
  by (induction t) (auto simp: achar_No split: if_splits)

lemma achar_em_listar: "achar t i = Some b \<Longrightarrow> b \<in> set (listarLivrosRecursivo t)"
  by (induction t) (auto simp: achar_No split: if_splits)

lemma listar_em_achar: "abb t \<Longrightarrow> b \<in> set (listarLivrosRecursivo t) \<Longrightarrow> achar t (ident b) = Some b"
proof (induction t)
  case Nulo
  then show ?case by simp
next
  case (No esq c dir)
  from No.prems(2) consider "b \<in> set (listarLivrosRecursivo esq)" | "b = c"
    | "b \<in> set (listarLivrosRecursivo dir)" by auto
  then show ?case
  proof cases
    case 1
    then have "ident b \<in> ids esq" by (simp add: ids_def)
    then have "ident b < ident c" using No.prems(1) by simp
    then show ?thesis using No 1 by (simp add: achar_No)
  next
    case 2
    then show ?thesis by (simp add: achar_No)
  next
    case 3
    then have "ident b \<in> ids dir" by (simp add: ids_def)
    then have "ident c < ident b" using No.prems(1) by simp
    then show ?thesis using No 3 by (simp add: achar_No)
  qed
qed

lemma ordenado_listar: "abb t \<Longrightarrow> sorted_wrt (<) (map ident (listarLivrosRecursivo t))"
proof (induction t)
  case Nulo
  then show ?case by simp
next
  case (No esq c dir)
  have e: "\<forall>x \<in> set (listarLivrosRecursivo esq). ident x < ident c"
    using No.prems by (simp add: ids_def)
  have d: "\<forall>x \<in> set (listarLivrosRecursivo dir). ident c < ident x"
    using No.prems by (simp add: ids_def)
  have "\<forall>x \<in> set (listarLivrosRecursivo esq). \<forall>y \<in> set (listarLivrosRecursivo dir). ident x < ident y"
    using e d by fastforce
  then show ?case using No e d by (simp add: sorted_wrt_append)
qed

lemma distinto_listar: "abb t \<Longrightarrow> distinct (map ident (listarLivrosRecursivo t))"
  using ordenado_listar strict_sorted_iff by blast

lemma contar_length: "contarLivros t = int (length (listarLivrosRecursivo t))"
  by (induction t) auto

lemma inserirTodos_Cons:
  "inserirTodos bib ((i, s, a) # xs) = inserirTodos (inserirLivro bib i s a) xs"
  by (simp add: inserirTodos_def)

lemma inserirTodos_achar:
  "abb (raiz bib) \<Longrightarrow> distinct (map fst xs) \<Longrightarrow> fst ` set xs \<inter> ids (raiz bib) = {} \<Longrightarrow>
   abb (raiz (inserirTodos bib xs)) \<and>
   (\<forall>j. achar (raiz (inserirTodos bib xs)) j =
      (case map_of xs j of Some (s, a) \<Rightarrow> Some (novo (j, s, a)) | None \<Rightarrow> achar (raiz bib) j))"
proof (induction xs arbitrary: bib)
  case Nil
  then show ?case by (simp add: inserirTodos_def)
next
  case (Cons x xs)
  obtain i s a where x: "x = (i, s, a)" by (cases x)
  let ?b = "inserirLivro bib i s a"
  have r: "raiz ?b = inserirLivroRecursivo (raiz bib) i s a" by (simp add: inserirLivro_def)
  have a1: "abb (raiz ?b)" using Cons.prems(1) r by (simp add: abb_inserir)
  have a2: "distinct (map fst xs)" using Cons.prems(2) by simp
  have ni: "i \<notin> fst ` set xs" using Cons.prems(2) x by simp
  have a3: "fst ` set xs \<inter> ids (raiz ?b) = {}"
    using Cons.prems(3) ni r by (auto simp: ids_inserir)
  note ih = Cons.IH [OF a1 a2 a3]
  have nn: "achar (raiz bib) i = None"
    using Cons.prems(1,3) x by (simp add: achar_None_iff)
  have mi: "map_of xs i = None" using ni by (simp add: map_of_eq_None_iff)
  have "achar (raiz (inserirTodos ?b xs)) j =
      (case map_of (x # xs) j of Some (s, a) \<Rightarrow> Some (novo (j, s, a)) | None \<Rightarrow> achar (raiz bib) j)" for j
  proof (cases "j = i")
    case True
    then show ?thesis using ih mi nn x r by (simp add: achar_inserir novo_def)
  next
    case False
    then show ?thesis using ih x r by (simp add: achar_inserir split: option.splits)
  qed
  then show ?case using ih x by (simp add: inserirTodos_Cons)
qed

lemma buscar_gravar:
  "buscarLivroRecursivo t i = No e b d \<Longrightarrow>
   buscarLivroRecursivo (gravarDisponivel t i v) i = No e (b\<lparr>disponivel := v\<rparr>) d"
  by (induction t) (auto split: if_splits)

section \<open>Properties of the conversions\<close>

declare digitos.simps [simp del]

lemma isdigit_digito: "d < 10 \<Longrightarrow> isdigit (digito d)"
  by (simp add: isdigit_def digito_def of_char_of)

lemma valor_digito: "d < 10 \<Longrightarrow> valor (digito d) = d"
  by (simp add: valor_def digito_def of_char_of)

lemma digitos_isdigit: "c \<in> set (digitos n) \<Longrightarrow> isdigit c"
proof (induction n rule: digitos.induct)
  case (1 n)
  show ?case
  proof (cases "n < 10")
    case True
    with 1(2) show ?thesis by (simp add: digitos.simps [of n] isdigit_digito)
  next
    case False
    with 1 show ?thesis by (auto simp: digitos.simps [of n] isdigit_digito)
  qed
qed

lemma digitos_nao_vazio: "digitos n \<noteq> []"
  by (subst digitos.simps) simp

lemma ler_digitos_append:
  "\<forall>c \<in> set ds. isdigit c \<Longrightarrow>
   ler_digitos acc (ds @ r) = ler_digitos (foldl (\<lambda>a c. 10 * a + valor c) acc ds) r"
  by (induction ds arbitrary: acc) auto

lemma ler_digitos_fim: "r = [] \<or> \<not> isdigit (hd r) \<Longrightarrow> ler_digitos acc r = (acc, r)"
  by (cases r) auto

lemma foldl_digitos:
  "foldl (\<lambda>a c. 10 * a + valor c) acc (digitos n) = acc * 10 ^ length (digitos n) + n"
proof (induction n arbitrary: acc rule: digitos.induct)
  case (1 n)
  show ?case
  proof (cases "n < 10")
    case True
    then show ?thesis by (simp add: digitos.simps [of n] valor_digito)
  next
    case False
    then have "foldl (\<lambda>a c. 10 * a + valor c) acc (digitos n)
      = 10 * (acc * 10 ^ length (digitos (n div 10)) + n div 10) + n mod 10"
      using 1 [OF False] by (simp add: digitos.simps [of n] valor_digito)
    also have "\<dots> = acc * 10 ^ length (digitos n) + n"
      using False by (simp add: digitos.simps [of n] algebra_simps)
    finally show ?thesis .
  qed
qed

lemma ler_digitos_digitos:
  "r = [] \<or> \<not> isdigit (hd r) \<Longrightarrow> ler_digitos 0 (digitos n @ r) = (n, r)"
  by (simp add: ler_digitos_append digitos_isdigit foldl_digitos ler_digitos_fim)

lemma ler_sem_sinal_digitos:
  "r = [] \<or> \<not> isdigit (hd r) \<Longrightarrow> ler_sem_sinal (digitos n @ r) = Some (n, r)"
proof -
  assume r: "r = [] \<or> \<not> isdigit (hd r)"
  obtain c cs where d: "digitos n = c # cs" using digitos_nao_vazio [of n] by (cases "digitos n") auto
  then have "isdigit c" using digitos_isdigit [of c n] by simp
  then have "ler_sem_sinal (digitos n @ r) = Some (ler_digitos 0 (digitos n @ r))"
    using d by simp
  then show ?thesis using r by (simp add: ler_digitos_digitos)
qed

lemma isdigit_nao_espaco: "isdigit c \<Longrightarrow> \<not> isspace c \<and> c \<noteq> CHR ''-'' \<and> c \<noteq> CHR ''+''"
  by (auto simp: isdigit_def isspace_def)

lemma para_int_faixa: "faixa_int k \<Longrightarrow> para_int (para_long k) = k"
  by (simp add: faixa_int_def para_long_def para_int_def)

lemma faixa_para_int: "faixa_int (para_int k)"
  by (simp add: faixa_int_def para_int_def)

lemma scan_d_mostrar:
  "faixa_int k \<Longrightarrow> r = [] \<or> \<not> isdigit (hd r) \<Longrightarrow> scan_d (mostrar_int k @ r) = Some (k, r)"
proof -
  assume f: "faixa_int k" and r: "r = [] \<or> \<not> isdigit (hd r)"
  have p: "para_int (para_long k) = k" using f by (rule para_int_faixa)
  obtain c cs where d: "digitos (nat \<bar>k\<bar>) = c # cs"
    using digitos_nao_vazio [of "nat \<bar>k\<bar>"] by (cases "digitos (nat \<bar>k\<bar>)") auto
  then have c: "isdigit c" using digitos_isdigit [of c "nat \<bar>k\<bar>"] by simp
  note nc = isdigit_nao_espaco [OF c]
  show ?thesis
  proof (cases "k < 0")
    case True
    then have m: "mostrar_int k = CHR ''-'' # digitos (nat \<bar>k\<bar>)" by (simp add: mostrar_int_def)
    have "\<not> isspace (CHR ''-'')" by (simp add: isspace_def)
    then show ?thesis
      using True r m p by (simp add: scan_d_def ler_sem_sinal_digitos)
  next
    case False
    then have m: "mostrar_int k = digitos (nat \<bar>k\<bar>)" by (simp add: mostrar_int_def)
    have "ler_sem_sinal (c # cs @ r) = Some (nat \<bar>k\<bar>, r)"
      using ler_sem_sinal_digitos [OF r, of "nat \<bar>k\<bar>"] d by simp
    then show ?thesis
      using False nc m d p by (simp add: scan_d_def)
  qed
qed

lemma scan_d_fora_da_faixa:
  "scan_d ''2147483648'' = Some (- 2147483648, [])"
  "scan_d ''4294967296'' = Some (0, [])"
  "scan_d ''-2147483649'' = Some (2147483647, [])"
  "scan_d ''9223372036854775808'' = Some (- 1, [])"
  by (simp_all add: scan_d_def isdigit_def valor_def isspace_def para_int_def para_long_def)

lemma mostrar_int_chars: "c \<in> set (mostrar_int k) \<Longrightarrow> isdigit c \<or> c = CHR ''-''"
  by (auto simp: mostrar_int_def dest: digitos_isdigit split: if_splits)

lemma mostrar_int_length: "length (mostrar_int k) \<ge> 1"
  using digitos_nao_vazio by (auto simp: mostrar_int_def Suc_le_eq)

lemma scan_ate_barra_campo:
  "s \<noteq> [] \<Longrightarrow> CHR ''|'' \<notin> set s \<Longrightarrow>
   scan_ate_barra (s @ CHR ''|'' # r) = Some (s, CHR ''|'' # r)"
proof -
  assume s: "s \<noteq> []" and b: "CHR ''|'' \<notin> set s"
  have t: "takeWhile (\<lambda>c. c \<noteq> CHR ''|'') (s @ CHR ''|'' # r) = s"
    using b by (induction s) auto
  have d: "dropWhile (\<lambda>c. c \<noteq> CHR ''|'') (s @ CHR ''|'' # r) = CHR ''|'' # r"
    using b by (induction s) auto
  show ?thesis using s t d by (simp add: scan_ate_barra_def)
qed

lemma c_str_sem_nul: "CHR 0x00 \<notin> set s \<Longrightarrow> c_str s = s"
  by (auto simp: c_str_def takeWhile_eq_all_conv)

lemma nao_digito [simp]: "\<not> isdigit (CHR ''|'')" "\<not> isdigit nova_linha"
  by (simp_all add: isdigit_def nova_linha_def)

lemma mostrar_int_sem: "CHR 0x00 \<notin> set (mostrar_int k)" "nova_linha \<notin> set (mostrar_int k)"
  using mostrar_int_chars [of "CHR 0x00" k] mostrar_int_chars [of nova_linha k]
  by (auto simp: isdigit_def nova_linha_def)

lemma fprintf_livro_sem_nul:
  "campo_ok (titulo b) \<Longrightarrow> campo_ok (autor b) \<Longrightarrow> CHR 0x00 \<notin> set (fprintf_livro b)"
  by (simp add: fprintf_livro_def campo_ok_def mostrar_int_sem nova_linha_def)

lemma sscanf_fprintf:
  assumes "registro_ok max_titulo max_autor b"
  shows "sscanf_linha max_titulo max_autor v (fprintf_livro b) = Inr (b, 4)"
proof -
  have ct: "campo_ok (titulo b)" and ca: "campo_ok (autor b)"
    and lt: "length (titulo b) < max_titulo" and la: "length (autor b) < max_autor"
    and fi: "faixa_int (ident b)" and fd: "faixa_int (disponivel b)"
    using assms by (simp_all add: registro_ok_def)
  let ?r6 = "mostrar_int (disponivel b) @ [nova_linha]"
  let ?r4 = "autor b @ CHR ''|'' # ?r6"
  let ?r2 = "titulo b @ CHR ''|'' # ?r4"
  have l: "fprintf_livro b = mostrar_int (ident b) @ CHR ''|'' # ?r2"
    by (simp add: fprintf_livro_def)
  have c: "c_str (mostrar_int (ident b) @ CHR ''|'' # ?r2) = mostrar_int (ident b) @ CHR ''|'' # ?r2"
    using ct ca fprintf_livro_sem_nul [of b] c_str_sem_nul [of "fprintf_livro b"] l by simp
  have s1: "scan_d (mostrar_int (ident b) @ CHR ''|'' # ?r2) = Some (ident b, CHR ''|'' # ?r2)"
    using fi by (rule scan_d_mostrar) simp
  have s2: "scan_ate_barra ?r2 = Some (titulo b, CHR ''|'' # ?r4)"
    using ct by (simp add: scan_ate_barra_campo campo_ok_def)
  have s3: "scan_ate_barra ?r4 = Some (autor b, CHR ''|'' # ?r6)"
    using ca by (simp add: scan_ate_barra_campo campo_ok_def)
  have s4: "scan_d ?r6 = Some (disponivel b, [nova_linha])"
    using fd by (rule scan_d_mostrar) simp
  have "sscanf_linha max_titulo max_autor v (fprintf_livro b)
      = Inr (v\<lparr>ident := ident b, titulo := titulo b, autor := autor b,
                disponivel := disponivel b\<rparr>, 4)"
    using lt la by (simp add: sscanf_linha_def l c s1 s2 s3 s4)
  then show ?thesis by simp
qed

lemma ler_ate_linha:
  "nova_linha \<notin> set s \<Longrightarrow> length s < k \<Longrightarrow> ler_ate k (s @ nova_linha # r) = (s @ [nova_linha], r)"
proof (induction s arbitrary: k)
  case Nil
  then show ?case by (cases k) auto
next
  case (Cons c s)
  then obtain k' where k: "k = Suc k'" by (cases k) auto
  with Cons show ?case by auto
qed

lemma fgets_fprintf:
  assumes "registro_ok max_titulo max_autor b"
  shows "fgets 256 (fprintf_livro b @ resto) = Some (fprintf_livro b, resto)"
proof -
  let ?s = "mostrar_int (ident b) @ ''|'' @ titulo b @ ''|'' @ autor b @ ''|''
       @ mostrar_int (disponivel b)"
  have l: "fprintf_livro b = ?s @ [nova_linha]" by (simp add: fprintf_livro_def)
  have n: "nova_linha \<notin> set ?s"
    using assms by (simp add: registro_ok_def campo_ok_def mostrar_int_sem) (simp add: nova_linha_def)
  have k: "length ?s < 255" using assms l by (simp add: registro_ok_def)
  have "ler_ate 255 (?s @ nova_linha # resto) = (?s @ [nova_linha], resto)"
    using n k by (rule ler_ate_linha)
  then show ?thesis unfolding l by (simp add: fgets_def)
qed

section \<open>Properties of loading and saving\<close>

declare carregar_laco.simps [simp del]

lemma buscar_inserir_No: "buscarLivroRecursivo (inserirLivroRecursivo t i s a) i \<noteq> Nulo"
  by (induction t) (auto simp: criarLivro_def)

lemma processarLinha_Inr:
  "sscanf_linha max_titulo max_autor v linha = Inr (v', n) \<Longrightarrow>
   processarLinha max_titulo max_autor v bib linha = Inr (v', registrar bib v')"
  using buscar_inserir_No [of "raiz bib" "ident v'" "titulo v'" "autor v'"]
  by (auto simp: processarLinha_def registrar_def inserirLivro_def buscarLivro_def Let_def
           split: arvore.splits)


lemma abb_registrar: "abb (raiz bib) \<Longrightarrow> abb (raiz (registrar bib v))"
  by (simp add: registrar_def abb_gravar abb_inserir)


lemma carregar_laco_linhas:
  "\<forall>b \<in> set xs. registro_ok max_titulo max_autor b \<Longrightarrow>
   carregar_laco max_titulo max_autor (concat (map fprintf_livro xs)) v bib
     = Inr (foldl registrar bib xs)"
proof (induction xs arbitrary: v bib)
  case Nil
  then show ?case by (simp add: carregar_laco.simps [of _ _ "[]"] fgets_def)
next
  case (Cons b xs)
  have ok: "registro_ok max_titulo max_autor b" using Cons.prems by simp
  have f: "fgets 256 (fprintf_livro b @ concat (map fprintf_livro xs))
      = Some (fprintf_livro b, concat (map fprintf_livro xs))"
    using ok by (rule fgets_fprintf)
  have p: "processarLinha max_titulo max_autor v bib (fprintf_livro b) = Inr (b, registrar bib b)"
    using sscanf_fprintf [OF ok] by (rule processarLinha_Inr)
  have "carregar_laco max_titulo max_autor (concat (map fprintf_livro (b # xs))) v bib
      = carregar_laco max_titulo max_autor (concat (map fprintf_livro xs)) b (registrar bib b)"
    using f p by (simp add: carregar_laco.simps [of _ _ "fprintf_livro b @ concat (map fprintf_livro xs)"])
  then show ?case using Cons by simp
qed

lemma achar_registrar:
  "achar (raiz (registrar bib b)) j =
     (if j = ident b
      then (case achar (raiz bib) j of
              None \<Rightarrow> Some b
            | Some c \<Rightarrow> Some (c\<lparr>disponivel := disponivel b\<rparr>))
      else achar (raiz bib) j)"
  by (simp add: registrar_def achar_gravar achar_inserir split: option.splits)

lemma ids_registrar: "ids (raiz (registrar bib b)) = insert (ident b) (ids (raiz bib))"
  by (simp add: registrar_def ids_inserir)

lemma foldl_registrar:
  "abb (raiz bib) \<Longrightarrow> distinct (map ident xs) \<Longrightarrow> ident ` set xs \<inter> ids (raiz bib) = {} \<Longrightarrow>
   abb (raiz (foldl registrar bib xs)) \<and>
   (\<forall>j. achar (raiz (foldl registrar bib xs)) j =
      (case map_of (map (\<lambda>b. (ident b, b)) xs) j of Some b \<Rightarrow> Some b | None \<Rightarrow> achar (raiz bib) j))"
proof (induction xs arbitrary: bib)
  case Nil
  then show ?case by simp
next
  case (Cons b xs)
  let ?b = "registrar bib b"
  have a1: "abb (raiz ?b)" using Cons.prems(1) by (rule abb_registrar)
  have a2: "distinct (map ident xs)" using Cons.prems(2) by simp
  have ni: "ident b \<notin> ident ` set xs" using Cons.prems(2) by simp
  have a3: "ident ` set xs \<inter> ids (raiz ?b) = {}"
    using Cons.prems(3) ni by (auto simp: ids_registrar)
  note ih = Cons.IH [OF a1 a2 a3]
  have nn: "achar (raiz bib) (ident b) = None"
    using Cons.prems(1,3) by (simp add: achar_None_iff)
  have mi: "map_of (map (\<lambda>b. (ident b, b)) xs) (ident b) = None"
    using ni by (simp add: map_of_eq_None_iff image_image)
  have "achar (raiz (foldl registrar ?b xs)) j =
      (case map_of (map (\<lambda>b. (ident b, b)) (b # xs)) j of Some b \<Rightarrow> Some b
       | None \<Rightarrow> achar (raiz bib) j)" for j
  proof (cases "j = ident b")
    case True
    then show ?thesis using ih mi nn by (simp add: achar_registrar)
  next
    case False
    then show ?thesis using ih by (simp add: achar_registrar split: option.splits)
  qed
  then show ?case using ih by simp
qed

declare salvarBalanceadoRecursivo.simps [simp del]

lemma armazenar_listar: "armazenarLivrosEmOrdem t vetor = vetor @ listarLivrosRecursivo t"
  by (induction t arbitrary: vetor) auto

lemma intervalo_partido: "0 \<le> i \<Longrightarrow> i \<le> m \<Longrightarrow> m \<le> f \<Longrightarrow>
  [nat i ..< nat (f + 1)] = [nat i ..< nat m] @ nat m # [nat (m + 1) ..< nat (f + 1)]"
proof -
  assume a: "0 \<le> i" "i \<le> m" "m \<le> f"
  have 1: "nat i \<le> nat m" and nm: "nat m + (nat (f + 1) - nat m) = nat (f + 1)"
    using a by simp_all
  from upt_add_eq_append [OF 1, of "nat (f + 1) - nat m"]
  have 2: "[nat i ..< nat (f + 1)] = [nat i ..< nat m] @ [nat m ..< nat (f + 1)]"
    unfolding nm .
  have 3: "nat m < nat (f + 1)" using a by simp
  have 4: "Suc (nat m) = nat (m + 1)" using a by simp
  show ?thesis unfolding 2 upt_conv_Cons [OF 3] 4 ..
qed

lemma salvar_permuta:
  "0 \<le> i \<Longrightarrow> f < int (length v) \<Longrightarrow>
   \<exists>ys. mset ys = mset (map ((!) v) [nat i ..< nat (f + 1)]) \<and>
        (\<forall>arq. salvarBalanceadoRecursivo v i f arq = arq @ concat (map fprintf_livro ys))"
proof (induction "nat (f - i + 1)" arbitrary: i f rule: less_induct)
  case less
  show ?case
  proof (cases "i \<le> f")
    case False
    then have e: "[nat i ..< nat (f + 1)] = []" using less.prems by simp
    have q: "mset [] = mset (map ((!) v) [nat i ..< nat (f + 1)])"
      unfolding e by simp
    have "salvarBalanceadoRecursivo v i f arq = arq @ concat (map fprintf_livro [])" for arq
      using False by (simp add: salvarBalanceadoRecursivo.simps [of v i f])
    with q have "mset [] = mset (map ((!) v) [nat i ..< nat (f + 1)]) \<and>
        (\<forall>arq. salvarBalanceadoRecursivo v i f arq = arq @ concat (map fprintf_livro []))"
      by blast
    then show ?thesis by blast
  next
    case True
    define m where "m = (i + f) div 2"
    have im: "i \<le> m" and mf: "m \<le> f" using True by (simp_all add: m_def)
    have "nat (m - 1 - i + 1) < nat (f - i + 1)" using im mf by simp
    from less.hyps [OF this] less.prems mf
    obtain ys1 where y1: "mset ys1 = mset (map ((!) v) [nat i ..< nat m])"
      and s1: "\<And>arq. salvarBalanceadoRecursivo v i (m - 1) arq = arq @ concat (map fprintf_livro ys1)"
      by auto
    have "nat (f - (m + 1) + 1) < nat (f - i + 1)" using im mf by simp
    from less.hyps [OF this] less.prems im
    obtain ys2 where y2: "mset ys2 = mset (map ((!) v) [nat (m + 1) ..< nat (f + 1)])"
      and s2: "\<And>arq. salvarBalanceadoRecursivo v (m + 1) f arq = arq @ concat (map fprintf_livro ys2)"
      by auto
    have sp: "[nat i ..< nat (f + 1)] = [nat i ..< nat m] @ nat m # [nat (m + 1) ..< nat (f + 1)]"
      using less.prems(1) im mf by (rule intervalo_partido)
    have ms: "mset (v ! nat m # ys1 @ ys2) = mset (map ((!) v) [nat i ..< nat (f + 1)])"
      unfolding sp by (simp only: map_append list.map mset_append mset.simps y1 y2) simp
    have "salvarBalanceadoRecursivo v i f arq
        = arq @ concat (map fprintf_livro (v ! nat m # ys1 @ ys2))" for arq
      using True s1 s2 by (simp add: salvarBalanceadoRecursivo.simps [of v i f] m_def Let_def)
    with ms show ?thesis by blast
  qed
qed

lemma salvarLivros_permuta:
  "\<exists>ys. mset ys = mset (listarLivrosRecursivo t) \<and>
        salvarLivros t arq = arq @ concat (map fprintf_livro ys)"
proof -
  let ?v = "listarLivrosRecursivo t"
  have "\<exists>ys. mset ys = mset (map ((!) ?v) [nat 0 ..< nat (int (length ?v) - 1 + 1)]) \<and>
        (\<forall>arq. salvarBalanceadoRecursivo ?v 0 (int (length ?v) - 1) arq
                 = arq @ concat (map fprintf_livro ys))"
    by (rule salvar_permuta) simp_all
  then obtain ys where "mset ys = mset ?v"
    and "salvarBalanceadoRecursivo ?v 0 (int (length ?v) - 1) arq
           = arq @ concat (map fprintf_livro ys)"
    by (auto simp: map_nth)
  then show ?thesis
    by (auto simp: salvarLivros_def salvarLivrosBalanceado_def armazenar_listar contar_length)
qed

lemma listas_iguais:
  assumes "sorted_wrt (<) (map ident xs)" "sorted_wrt (<) (map ident ys)" "set xs = set ys"
  shows "xs = ys"
proof -
  have "set (map ident ys) = set (map ident xs)" using assms(3) by simp
  with assms(1,2) have m: "map ident ys = map ident xs" by (rule strict_sorted_equal)
  have "distinct (map ident xs)" using assms(1) strict_sorted_iff by blast
  then have "inj_on ident (set xs \<union> set ys)" using assms(3) by (simp add: distinct_map)
  with m show ?thesis by (metis map_inj_on)
qed

lemma carregar_laco_passo:
  "fgets 256 arquivo = Some (linha, resto) \<Longrightarrow>
   sscanf_linha max_titulo max_autor v linha = Inr (v', n) \<Longrightarrow>
   carregar_laco max_titulo max_autor arquivo v bib
     = carregar_laco max_titulo max_autor resto v' (registrar bib v')"
  using processarLinha_Inr [of max_titulo max_autor v linha v' n bib]
  by (simp add: carregar_laco.simps [of _ _ arquivo])






section \<open>Claims about insertion, search, removal and lending\<close>

text \<open>
  C3. For every sequence of insertions with pairwise distinct identifiers into
  the empty catalogue, a search for each inserted identifier returns the record
  inserted for it (its title and author, available), and the in-order listing
  visits exactly the inserted records in strictly ascending order of identifier.
\<close>

theorem insercoes_distintas:
  "distinct (map fst xs) \<Longrightarrow>
   (\<forall>(i, s, a) \<in> set xs.
       registro (buscarLivro (inserirTodos criarBiblioteca xs) i) =
         Some \<lparr>ident = i, titulo = s, autor = a, disponivel = 1\<rparr>)
   \<and> sorted_wrt (<) (map ident (listarLivrosRecursivo (raiz (inserirTodos criarBiblioteca xs))))
   \<and> set (listarLivrosRecursivo (raiz (inserirTodos criarBiblioteca xs))) = novo ` set xs"
proof -
  assume d: "distinct (map fst xs)"
  let ?B = "inserirTodos criarBiblioteca xs"
  have "abb (raiz criarBiblioteca)" and "fst ` set xs \<inter> ids (raiz criarBiblioteca) = {}"
    by (simp_all add: criarBiblioteca_def)
  note r = inserirTodos_achar [OF this(1) d this(2)]
  have ab: "abb (raiz ?B)" using r by blast
  have ac: "achar (raiz ?B) j = (case map_of xs j of Some (s, a) \<Rightarrow> Some (novo (j, s, a)) | None \<Rightarrow> None)" for j
    using r by (auto simp: criarBiblioteca_def split: option.splits)
  have m: "(i, s, a) \<in> set xs \<longleftrightarrow> map_of xs i = Some (s, a)" for i s a
    using d by simp
  have 1: "\<forall>(i, s, a) \<in> set xs. registro (buscarLivro ?B i) = Some \<lparr>ident = i, titulo = s, autor = a, disponivel = 1\<rparr>"
    using ac m by (auto simp: achar_def buscarLivro_def novo_def)
  have 2: "sorted_wrt (<) (map ident (listarLivrosRecursivo (raiz ?B)))"
    using ab by (rule ordenado_listar)
  have 3: "set (listarLivrosRecursivo (raiz ?B)) = novo ` set xs"
  proof (rule set_eqI)
    fix b
    show "b \<in> set (listarLivrosRecursivo (raiz ?B)) \<longleftrightarrow> b \<in> novo ` set xs"
    proof
      assume "b \<in> set (listarLivrosRecursivo (raiz ?B))"
      then have "achar (raiz ?B) (ident b) = Some b" using ab by (simp add: listar_em_achar)
      then obtain s a where "map_of xs (ident b) = Some (s, a)" and "b = novo (ident b, s, a)"
        using ac [of "ident b"] by (auto split: option.splits)
      then show "b \<in> novo ` set xs" using m by blast
    next
      assume "b \<in> novo ` set xs"
      then obtain i s a where x: "(i, s, a) \<in> set xs" and b: "b = novo (i, s, a)" by auto
      then have "achar (raiz ?B) i = Some b" using ac m by simp
      then show "b \<in> set (listarLivrosRecursivo (raiz ?B))" by (rule achar_em_listar)
    qed
  qed
  from 1 2 3 show ?thesis by blast
qed

theorem insercoes_distintas_witness:
  "distinct (map fst [(2 :: int, ''Dom Casmurro'', ''Machado''), (1, ''Iracema'', ''Alencar''),
                      (3, ''Vidas Secas'', ''Graciliano'')])
   \<and> registro (buscarLivro (inserirTodos criarBiblioteca
         [(2, ''Dom Casmurro'', ''Machado''), (1, ''Iracema'', ''Alencar''),
          (3, ''Vidas Secas'', ''Graciliano'')]) 3)
       = Some \<lparr>ident = 3, titulo = ''Vidas Secas'', autor = ''Graciliano'', disponivel = 1\<rparr>
   \<and> sorted_wrt (<) (map ident (listarLivrosRecursivo (raiz (inserirTodos criarBiblioteca
         [(2, ''Dom Casmurro'', ''Machado''), (1, ''Iracema'', ''Alencar''),
          (3, ''Vidas Secas'', ''Graciliano'')]))))"
proof -
  have d: "distinct (map fst [(2 :: int, ''Dom Casmurro'', ''Machado''), (1, ''Iracema'', ''Alencar''),
                      (3, ''Vidas Secas'', ''Graciliano'')])"
    by simp
  from insercoes_distintas [OF d] d show ?thesis by simp
qed

text \<open>
  C4. In a catalogue that already holds a record with identifier \<open>i\<close>, an
  insertion with \<open>i\<close> changes nothing: the catalogue after the call is the
  catalogue before it, with the same nodes and the same records.
\<close>

theorem inserir_duplicado:
  "abb (raiz bib) \<Longrightarrow> i \<in> ids (raiz bib) \<Longrightarrow> inserirLivro bib i s a = bib"
  using buscar_Nulo_iff [of "raiz bib" i] inserir_presente [of "raiz bib" i s a]
  by (simp add: inserirLivro_def)

theorem inserir_duplicado_witness:
  "abb (raiz (inserirTodos criarBiblioteca [(2, ''B'', ''b''), (1, ''A'', ''a'')]))
   \<and> 1 \<in> ids (raiz (inserirTodos criarBiblioteca [(2, ''B'', ''b''), (1, ''A'', ''a'')]))
   \<and> inserirLivro (inserirTodos criarBiblioteca [(2, ''B'', ''b''), (1, ''A'', ''a'')]) 1 ''X'' ''x''
       = inserirTodos criarBiblioteca [(2, ''B'', ''b''), (1, ''A'', ''a'')]"
proof -
  let ?B = "inserirTodos criarBiblioteca [(2, ''B'', ''b''), (1, ''A'', ''a'')]"
  have h1: "abb (raiz ?B)"
    by (simp add: inserirTodos_def inserirLivro_def criarBiblioteca_def criarLivro_def)
  have h2: "1 \<in> ids (raiz ?B)"
    by (simp add: inserirTodos_def inserirLivro_def criarBiblioteca_def criarLivro_def)
  from h1 h2 inserir_duplicado [OF h1 h2, of "''X''" "''x''"] show ?thesis by simp
qed

text \<open>
  C5. In a catalogue that holds a record with identifier \<open>i\<close>, after the removal
  of \<open>i\<close> a search for \<open>i\<close> finds nothing, the count is one less than before,
  and the search-tree invariant holds over the remaining identifiers, which are
  those of before without \<open>i\<close>.
\<close>

theorem remover_presente:
  "abb (raiz bib) \<Longrightarrow> i \<in> ids (raiz bib) \<Longrightarrow>
   buscarLivro (removerLivro bib i) i = Nulo
   \<and> contarLivros (raiz (removerLivro bib i)) = contarLivros (raiz bib) - 1
   \<and> abb (raiz (removerLivro bib i))
   \<and> ids (raiz (removerLivro bib i)) = ids (raiz bib) - {i}"
  using buscar_Nulo_iff [of "removerLivroRecursivo (raiz bib) i" i]
  by (simp add: removerLivro_def buscarLivro_def abb_remover ids_remover contar_remover)

theorem remover_presente_witness:
  "abb (raiz (inserirTodos criarBiblioteca [(2, ''B'', ''b''), (1, ''A'', ''a''), (4, ''D'', ''d''), (3, ''C'', ''c'')]))
   \<and> 2 \<in> ids (raiz (inserirTodos criarBiblioteca [(2, ''B'', ''b''), (1, ''A'', ''a''), (4, ''D'', ''d''), (3, ''C'', ''c'')]))
   \<and> buscarLivro (removerLivro (inserirTodos criarBiblioteca [(2, ''B'', ''b''), (1, ''A'', ''a''), (4, ''D'', ''d''), (3, ''C'', ''c'')]) 2) 2 = Nulo
   \<and> contarLivros (raiz (removerLivro (inserirTodos criarBiblioteca [(2, ''B'', ''b''), (1, ''A'', ''a''), (4, ''D'', ''d''), (3, ''C'', ''c'')]) 2)) = 3"
proof -
  let ?B = "inserirTodos criarBiblioteca [(2, ''B'', ''b''), (1, ''A'', ''a''), (4, ''D'', ''d''), (3, ''C'', ''c'')]"
  have h1: "abb (raiz ?B)"
    by (simp add: inserirTodos_def inserirLivro_def criarBiblioteca_def criarLivro_def)
  have h2: "2 \<in> ids (raiz ?B)"
    by (simp add: inserirTodos_def inserirLivro_def criarBiblioteca_def criarLivro_def)
  have c: "contarLivros (raiz ?B) = 4"
    by (simp add: inserirTodos_def inserirLivro_def criarBiblioteca_def criarLivro_def)
  from h1 h2 c remover_presente [OF h1 h2] show ?thesis by simp
qed

text \<open>
  C9. The removal of an identifier that the catalogue does not hold changes
  nothing: the catalogue after the call is the catalogue before it, node for
  node and record for record, and the count is the same.
\<close>

theorem remover_inexistente:
  "i \<notin> ids (raiz bib) \<Longrightarrow>
   removerLivro bib i = bib \<and> contarLivros (raiz (removerLivro bib i)) = contarLivros (raiz bib)"
  by (simp add: removerLivro_def remover_ausente)

theorem remover_inexistente_witness:
  "5 \<notin> ids (raiz (inserirTodos criarBiblioteca [(2, ''B'', ''b''), (1, ''A'', ''a'')]))
   \<and> removerLivro (inserirTodos criarBiblioteca [(2, ''B'', ''b''), (1, ''A'', ''a'')]) 5
       = inserirTodos criarBiblioteca [(2, ''B'', ''b''), (1, ''A'', ''a'')]"
proof -
  let ?B = "inserirTodos criarBiblioteca [(2, ''B'', ''b''), (1, ''A'', ''a'')]"
  have h: "5 \<notin> ids (raiz ?B)"
    by (simp add: inserirTodos_def inserirLivro_def criarBiblioteca_def criarLivro_def)
  from h remover_inexistente [OF h] show ?thesis by simp
qed

text \<open>
  C8. Lending has three outcomes. When the search finds no record the message
  is "not found" and the catalogue is unchanged; when it finds a record that is
  not available the message is "not available" and the catalogue is unchanged;
  when it finds an available record the message is success and that record, and
  no other, becomes unavailable. After a successful lending, lending the same
  identifier again reports "not available", returning it succeeds and makes the
  record available, and returning it once more reports "already available".
\<close>

theorem emprestar_devolver:
  "(buscarLivro bib i = Nulo \<longrightarrow> emprestarLivro bib i = (bib, NaoEncontrado))
   \<and> (\<forall>e b d. buscarLivro bib i = No e b d \<and> disponivel b = 0 \<longrightarrow>
         emprestarLivro bib i = (bib, NaoDisponivel))
   \<and> (\<forall>e b d. buscarLivro bib i = No e b d \<and> disponivel b \<noteq> 0 \<longrightarrow>
         (\<exists>bib1 bib2.
            emprestarLivro bib i = (bib1, EmprestadoComSucesso)
            \<and> (\<forall>j. achar (raiz bib1) j =
                  (if j = i then Some (b\<lparr>disponivel := 0\<rparr>) else achar (raiz bib) j))
            \<and> emprestarLivro bib1 i = (bib1, NaoDisponivel)
            \<and> devolverLivro bib1 i = (bib2, DevolvidoComSucesso)
            \<and> (\<forall>j. achar (raiz bib2) j =
                  (if j = i then Some (b\<lparr>disponivel := 1\<rparr>) else achar (raiz bib) j))
            \<and> devolverLivro bib2 i = (bib2, JaDisponivel)))"
proof (intro conjI allI impI)
  show "emprestarLivro bib i = (bib, NaoEncontrado)" if "buscarLivro bib i = Nulo"
    using that by (simp add: emprestarLivro_def)
next
  fix e b d
  assume "buscarLivro bib i = No e b d \<and> disponivel b = 0"
  then show "emprestarLivro bib i = (bib, NaoDisponivel)"
    by (simp add: emprestarLivro_def)
next
  fix e b d
  assume h: "buscarLivro bib i = No e b d \<and> disponivel b \<noteq> 0"
  let ?t1 = "gravarDisponivel (raiz bib) i 0"
  let ?b1 = "bib\<lparr>raiz := ?t1\<rparr>"
  let ?t2 = "gravarDisponivel ?t1 i 1"
  let ?b2 = "?b1\<lparr>raiz := ?t2\<rparr>"
  have f0: "buscarLivroRecursivo (raiz bib) i = No e b d" using h by (simp add: buscarLivro_def)
  have f1: "buscarLivroRecursivo ?t1 i = No e (b\<lparr>disponivel := 0\<rparr>) d"
    using f0 by (rule buscar_gravar)
  have f2: "buscarLivroRecursivo ?t2 i = No e (b\<lparr>disponivel := 1\<rparr>) d"
    using buscar_gravar [OF f1, of 1] by simp
  have a0: "achar (raiz bib) i = Some b" using f0 by (simp add: achar_def)
  have 1: "emprestarLivro bib i = (?b1, EmprestadoComSucesso)"
    using h by (simp add: emprestarLivro_def)
  have 2: "\<forall>j. achar (raiz ?b1) j = (if j = i then Some (b\<lparr>disponivel := 0\<rparr>) else achar (raiz bib) j)"
    using a0 by (simp add: achar_gravar)
  have 3: "emprestarLivro ?b1 i = (?b1, NaoDisponivel)"
    using f1 by (simp add: emprestarLivro_def buscarLivro_def)
  have 4: "devolverLivro ?b1 i = (?b2, DevolvidoComSucesso)"
    using f1 by (simp add: devolverLivro_def buscarLivro_def)
  have 5: "\<forall>j. achar (raiz ?b2) j = (if j = i then Some (b\<lparr>disponivel := 1\<rparr>) else achar (raiz bib) j)"
    using a0 by (simp add: achar_gravar)
  have 6: "devolverLivro ?b2 i = (?b2, JaDisponivel)"
    using f2 by (simp add: devolverLivro_def buscarLivro_def)
  from 1 2 3 4 5 6
  show "\<exists>bib1 bib2.
            emprestarLivro bib i = (bib1, EmprestadoComSucesso)
            \<and> (\<forall>j. achar (raiz bib1) j =
                  (if j = i then Some (b\<lparr>disponivel := 0\<rparr>) else achar (raiz bib) j))
            \<and> emprestarLivro bib1 i = (bib1, NaoDisponivel)
            \<and> devolverLivro bib1 i = (bib2, DevolvidoComSucesso)
            \<and> (\<forall>j. achar (raiz bib2) j =
                  (if j = i then Some (b\<lparr>disponivel := 1\<rparr>) else achar (raiz bib) j))
            \<and> devolverLivro bib2 i = (bib2, JaDisponivel)"
    by blast
qed

theorem emprestar_devolver_witness:
  "buscarLivro \<lparr>raiz = No Nulo \<lparr>ident = 1, titulo = ''A'', autor = ''a'', disponivel = 1\<rparr> Nulo\<rparr> 7 = Nulo
   \<and> emprestarLivro \<lparr>raiz = No Nulo \<lparr>ident = 1, titulo = ''A'', autor = ''a'', disponivel = 1\<rparr> Nulo\<rparr> 7
       = (\<lparr>raiz = No Nulo \<lparr>ident = 1, titulo = ''A'', autor = ''a'', disponivel = 1\<rparr> Nulo\<rparr>, NaoEncontrado)
   \<and> buscarLivro \<lparr>raiz = No Nulo \<lparr>ident = 1, titulo = ''A'', autor = ''a'', disponivel = 0\<rparr> Nulo\<rparr> 1
       = No Nulo \<lparr>ident = 1, titulo = ''A'', autor = ''a'', disponivel = 0\<rparr> Nulo
   \<and> emprestarLivro \<lparr>raiz = No Nulo \<lparr>ident = 1, titulo = ''A'', autor = ''a'', disponivel = 0\<rparr> Nulo\<rparr> 1
       = (\<lparr>raiz = No Nulo \<lparr>ident = 1, titulo = ''A'', autor = ''a'', disponivel = 0\<rparr> Nulo\<rparr>, NaoDisponivel)
   \<and> buscarLivro \<lparr>raiz = No Nulo \<lparr>ident = 1, titulo = ''A'', autor = ''a'', disponivel = 1\<rparr> Nulo\<rparr> 1
       = No Nulo \<lparr>ident = 1, titulo = ''A'', autor = ''a'', disponivel = 1\<rparr> Nulo
   \<and> snd (emprestarLivro \<lparr>raiz = No Nulo \<lparr>ident = 1, titulo = ''A'', autor = ''a'', disponivel = 1\<rparr> Nulo\<rparr> 1)
       = EmprestadoComSucesso
   \<and> achar (raiz (fst (emprestarLivro \<lparr>raiz = No Nulo \<lparr>ident = 1, titulo = ''A'', autor = ''a'', disponivel = 1\<rparr> Nulo\<rparr> 1))) 1
       = Some \<lparr>ident = 1, titulo = ''A'', autor = ''a'', disponivel = 0\<rparr>"
proof -
  let ?r1 = "\<lparr>ident = 1, titulo = ''A'', autor = ''a'', disponivel = 1\<rparr>"
  let ?r0 = "\<lparr>ident = 1, titulo = ''A'', autor = ''a'', disponivel = 0\<rparr>"
  let ?B1 = "\<lparr>raiz = No Nulo ?r1 Nulo\<rparr>"
  let ?B0 = "\<lparr>raiz = No Nulo ?r0 Nulo\<rparr>"
  have h1: "buscarLivro ?B1 7 = Nulo" by (simp add: buscarLivro_def)
  have h2: "buscarLivro ?B0 1 = No Nulo ?r0 Nulo \<and> disponivel ?r0 = 0" by (simp add: buscarLivro_def)
  have h3: "buscarLivro ?B1 1 = No Nulo ?r1 Nulo \<and> disponivel ?r1 \<noteq> 0" by (simp add: buscarLivro_def)
  have c1: "emprestarLivro ?B1 7 = (?B1, NaoEncontrado)"
    using emprestar_devolver [of ?B1 7] h1 by blast
  have c2: "emprestarLivro ?B0 1 = (?B0, NaoDisponivel)"
    using emprestar_devolver [of ?B0 1] h2 by blast
  obtain bib1 where c3: "emprestarLivro ?B1 1 = (bib1, EmprestadoComSucesso)"
    and c4: "\<forall>j. achar (raiz bib1) j = (if j = 1 then Some (?r1\<lparr>disponivel := 0\<rparr>) else achar (raiz ?B1) j)"
    using emprestar_devolver [of ?B1 1] h3 by blast
  from h1 h2 h3 c1 c2 c3 c4 show ?thesis by simp
qed

section \<open>Claims about saving and loading\<close>




text \<open>
  C10. While a file is loaded, a line that is read in full with four fields
  and whose identifier the catalogue already holds leaves the title and the
  author of that record as they are and stores the availability read from the
  line in it, which is the int that \<open>%d\<close> stored; no node is added and no
  other record changes. The loop then goes on with the rest of the file.
\<close>

theorem linha_duplicada:
  "fgets 256 arquivo = Some (linha, resto) \<Longrightarrow>
   sscanf_linha max_titulo max_autor v linha = Inr (v', 4) \<Longrightarrow>
   achar (raiz bib) (ident v') = Some b \<Longrightarrow>
   carregar_laco max_titulo max_autor arquivo v bib
     = carregar_laco max_titulo max_autor resto v'
         (bib\<lparr>raiz := gravarDisponivel (raiz bib) (ident v') (disponivel v')\<rparr>)
   \<and> achar (gravarDisponivel (raiz bib) (ident v') (disponivel v')) (ident v')
       = Some (b\<lparr>disponivel := disponivel v'\<rparr>)
   \<and> (\<forall>j. j \<noteq> ident v' \<longrightarrow>
         achar (gravarDisponivel (raiz bib) (ident v') (disponivel v')) j = achar (raiz bib) j)
   \<and> contarLivros (gravarDisponivel (raiz bib) (ident v') (disponivel v'))
       = contarLivros (raiz bib)"
proof -
  assume f: "fgets 256 arquivo = Some (linha, resto)"
    and s: "sscanf_linha max_titulo max_autor v linha = Inr (v', 4)"
    and a: "achar (raiz bib) (ident v') = Some b"
  have "buscarLivroRecursivo (raiz bib) (ident v') \<noteq> Nulo" using a by (auto simp: achar_def)
  then have "inserirLivroRecursivo (raiz bib) (ident v') (titulo v') (autor v') = raiz bib"
    by (rule inserir_presente)
  then have "registrar bib v' = bib\<lparr>raiz := gravarDisponivel (raiz bib) (ident v') (disponivel v')\<rparr>"
    by (simp add: registrar_def)
  then show ?thesis using carregar_laco_passo [OF f s, of bib] a by (simp add: achar_gravar)
qed

theorem linha_duplicada_witness:
  "fgets 256 (''4294967297|X|Y|4294967296'' @ [CHR 0x0A]) = Some (''4294967297|X|Y|4294967296'' @ [CHR 0x0A], [])
   \<and> sscanf_linha 100 100 \<lparr>ident = 1, titulo = ''A'', autor = ''B'', disponivel = 1\<rparr>
        (''4294967297|X|Y|4294967296'' @ [CHR 0x0A])
       = Inr (\<lparr>ident = 1, titulo = ''X'', autor = ''Y'', disponivel = 0\<rparr>, 4)
   \<and> achar (No Nulo \<lparr>ident = 1, titulo = ''A'', autor = ''B'', disponivel = 1\<rparr> Nulo) 1
       = Some \<lparr>ident = 1, titulo = ''A'', autor = ''B'', disponivel = 1\<rparr>
   \<and> carregar_laco 100 100 (''4294967297|X|Y|4294967296'' @ [CHR 0x0A])
        \<lparr>ident = 1, titulo = ''A'', autor = ''B'', disponivel = 1\<rparr>
        \<lparr>raiz = No Nulo \<lparr>ident = 1, titulo = ''A'', autor = ''B'', disponivel = 1\<rparr> Nulo\<rparr>
       = Inr \<lparr>raiz = No Nulo \<lparr>ident = 1, titulo = ''A'', autor = ''B'', disponivel = 0\<rparr> Nulo\<rparr>"
proof -
  let ?l = "''4294967297|X|Y|4294967296'' @ [CHR 0x0A]"
  let ?v = "\<lparr>ident = 1, titulo = ''A'', autor = ''B'', disponivel = 1\<rparr>"
  let ?v' = "\<lparr>ident = 1, titulo = ''X'', autor = ''Y'', disponivel = 0\<rparr>"
  let ?B = "\<lparr>raiz = No Nulo ?v Nulo\<rparr>"
  have f: "fgets 256 ?l = Some (?l, [])" by code_simp
  have s: "sscanf_linha 100 100 ?v ?l = Inr (?v', 4)"
    by (simp add: sscanf_linha_def scan_d_def c_str_def scan_ate_barra_def isdigit_def valor_def
          isspace_def para_int_def para_long_def)
  have a: "achar (raiz ?B) (ident ?v') = Some ?v" by (simp add: achar_def)
  have e: "carregar_laco 100 100 [] ?v' (?B\<lparr>raiz := gravarDisponivel (raiz ?B) (ident ?v') (disponivel ?v')\<rparr>)
      = Inr \<lparr>raiz = No Nulo \<lparr>ident = 1, titulo = ''A'', autor = ''B'', disponivel = 0\<rparr> Nulo\<rparr>"
    by (simp add: carregar_laco.simps [of _ _ "[]"] fgets_def)
  from linha_duplicada [OF f s a] e have
    "carregar_laco 100 100 ?l ?v ?B
       = Inr \<lparr>raiz = No Nulo \<lparr>ident = 1, titulo = ''A'', autor = ''B'', disponivel = 0\<rparr> Nulo\<rparr>"
    by simp
  with f s a show ?thesis by simp
qed

text \<open>
  C1, as the code has it. For a catalogue that is a search tree, whose
  identifiers and flags are values of an int and whose titles and authors
  are fields that a line gives back (not empty, without \<open>|\<close>, newline or
  NUL, fitting the buffers and the line), saving and then
  loading into the empty catalogue succeeds and yields a search tree with the
  same in-order listing: the same records, each once, with the same
  identifier, title, author and availability.
\<close>

theorem salvar_e_carregar:
  "abb (raiz bib) \<Longrightarrow>
   \<forall>b \<in> set (listarLivrosRecursivo (raiz bib)). registro_ok max_titulo max_autor b \<Longrightarrow>
   \<exists>bib'. carregarLivros max_titulo max_autor v0 criarBiblioteca
              (Some (salvarLivros (raiz bib) [])) = Inr (bib', LivrosCarregados)
          \<and> listarLivrosRecursivo (raiz bib') = listarLivrosRecursivo (raiz bib)
          \<and> abb (raiz bib')"
proof -
  assume a: "abb (raiz bib)"
    and ok: "\<forall>b \<in> set (listarLivrosRecursivo (raiz bib)). registro_ok max_titulo max_autor b"
  let ?xs = "listarLivrosRecursivo (raiz bib)"
  obtain ys where my: "mset ys = mset ?xs"
    and sv: "salvarLivros (raiz bib) [] = concat (map fprintf_livro ys)"
    using salvarLivros_permuta [of "raiz bib" "[]"] by auto
  have sy: "set ys = set ?xs" using my by (rule mset_eq_setD)
  have "mset (map ident ys) = mset (map ident ?xs)" using my by simp
  then have dy: "distinct (map ident ys)"
    using distinto_listar [OF a] mset_eq_imp_distinct_iff by blast
  let ?B = "foldl registrar criarBiblioteca ys"
  have l: "carregar_laco max_titulo max_autor (concat (map fprintf_livro ys)) v0 criarBiblioteca
      = Inr ?B"
    using ok sy by (simp add: carregar_laco_linhas)
  have "abb (raiz criarBiblioteca)" and "ident ` set ys \<inter> ids (raiz criarBiblioteca) = {}"
    by (simp_all add: criarBiblioteca_def)
  note r = foldl_registrar [OF this(1) dy this(2)]
  have ab: "abb (raiz ?B)" using r by blast
  have ac: "achar (raiz ?B) j = map_of (map (\<lambda>b. (ident b, b)) ys) j" for j
    using r by (auto simp: criarBiblioteca_def split: option.splits)
  have dk: "distinct (map fst (map (\<lambda>b. (ident b, b)) ys))" using dy by (simp add: comp_def)
  have sb: "set (listarLivrosRecursivo (raiz ?B)) = set ys"
  proof (rule set_eqI)
    fix b
    show "b \<in> set (listarLivrosRecursivo (raiz ?B)) \<longleftrightarrow> b \<in> set ys"
    proof
      assume "b \<in> set (listarLivrosRecursivo (raiz ?B))"
      then have "achar (raiz ?B) (ident b) = Some b" using ab by (simp add: listar_em_achar)
      then have "map_of (map (\<lambda>b. (ident b, b)) ys) (ident b) = Some b" using ac by simp
      then have "(ident b, b) \<in> set (map (\<lambda>b. (ident b, b)) ys)" by (rule map_of_SomeD)
      then show "b \<in> set ys" by auto
    next
      assume "b \<in> set ys"
      then have "(ident b, b) \<in> set (map (\<lambda>b. (ident b, b)) ys)" by auto
      then have "map_of (map (\<lambda>b. (ident b, b)) ys) (ident b) = Some b"
        using dk by (simp only: map_of_eq_Some_iff)
      then have "achar (raiz ?B) (ident b) = Some b" using ac by simp
      then show "b \<in> set (listarLivrosRecursivo (raiz ?B))" by (rule achar_em_listar)
    qed
  qed
  have "listarLivrosRecursivo (raiz ?B) = ?xs"
    using ordenado_listar [OF ab] ordenado_listar [OF a] sb sy by (simp add: listas_iguais)
  then show ?thesis using l ab sv by (simp add: carregarLivros_def)
qed

theorem salvar_e_carregar_witness:
  "abb (raiz (inserirTodos criarBiblioteca [(1, ''Iracema'', ''Alencar''), (2, ''Dom Casmurro'', ''Machado''),
                                           (-3, ''Vidas Secas'', ''Graciliano'')]))
   \<and> list_all (registro_ok 100 100)
        (listarLivrosRecursivo (raiz (inserirTodos criarBiblioteca
           [(1, ''Iracema'', ''Alencar''), (2, ''Dom Casmurro'', ''Machado''),
            (-3, ''Vidas Secas'', ''Graciliano'')])))
   \<and> (\<exists>bib'. carregarLivros 100 100 \<lparr>ident = 0, titulo = [], autor = [], disponivel = 0\<rparr>
              criarBiblioteca
              (Some (salvarLivros (raiz (inserirTodos criarBiblioteca
                 [(1, ''Iracema'', ''Alencar''), (2, ''Dom Casmurro'', ''Machado''),
                  (-3, ''Vidas Secas'', ''Graciliano'')])) []))
            = Inr (bib', LivrosCarregados)
          \<and> listarLivrosRecursivo (raiz bib')
            = [\<lparr>ident = -3, titulo = ''Vidas Secas'', autor = ''Graciliano'', disponivel = 1\<rparr>,
               \<lparr>ident = 1, titulo = ''Iracema'', autor = ''Alencar'', disponivel = 1\<rparr>,
               \<lparr>ident = 2, titulo = ''Dom Casmurro'', autor = ''Machado'', disponivel = 1\<rparr>])"
proof -
  let ?B = "inserirTodos criarBiblioteca [(1, ''Iracema'', ''Alencar''), (2, ''Dom Casmurro'', ''Machado''),
                                           (-3, ''Vidas Secas'', ''Graciliano'')]"
  have h1: "abb (raiz ?B)"
    by (simp add: inserirTodos_def inserirLivro_def criarBiblioteca_def criarLivro_def)
  have h2: "list_all (registro_ok 100 100) (listarLivrosRecursivo (raiz ?B))"
    by code_simp
  then have h2': "\<forall>b \<in> set (listarLivrosRecursivo (raiz ?B)). registro_ok 100 100 b"
    by (simp only: list_all_iff)
  have l: "listarLivrosRecursivo (raiz ?B)
            = [\<lparr>ident = -3, titulo = ''Vidas Secas'', autor = ''Graciliano'', disponivel = 1\<rparr>,
               \<lparr>ident = 1, titulo = ''Iracema'', autor = ''Alencar'', disponivel = 1\<rparr>,
               \<lparr>ident = 2, titulo = ''Dom Casmurro'', autor = ''Machado'', disponivel = 1\<rparr>]"
    by (simp add: inserirTodos_def inserirLivro_def criarBiblioteca_def criarLivro_def)
  from salvar_e_carregar [OF h1 h2', of "\<lparr>ident = 0, titulo = [], autor = [], disponivel = 0\<rparr>"]
  show ?thesis using h1 h2 l by auto
qed

text \<open>
  C1 as stated fails: a catalogue with the records (1, A, B) and (2, empty
  title, C) is a search tree; its file is the lines \<open>1|A|B|1\<close> and \<open>2||C|1\<close>,
  and on the second line \<open>%[^|]\<close> does not match the empty title, so that
  the record 2 comes back with the title and the author of the line before.
\<close>

theorem salvar_e_carregar_counterexample:
  "abb (raiz (inserirTodos criarBiblioteca [(1, ''A'', ''B''), (2, [], ''C'')]))
   \<and> listarLivrosRecursivo (raiz (inserirTodos criarBiblioteca [(1, ''A'', ''B''), (2, [], ''C'')]))
       = [\<lparr>ident = 1, titulo = ''A'', autor = ''B'', disponivel = 1\<rparr>,
          \<lparr>ident = 2, titulo = [], autor = ''C'', disponivel = 1\<rparr>]
   \<and> carregarLivros 100 100 \<lparr>ident = 0, titulo = [], autor = [], disponivel = 0\<rparr> criarBiblioteca
        (Some (salvarLivros (raiz (inserirTodos criarBiblioteca [(1, ''A'', ''B''), (2, [], ''C'')])) []))
       = Inr (\<lparr>raiz = No Nulo \<lparr>ident = 1, titulo = ''A'', autor = ''B'', disponivel = 1\<rparr>
                        (No Nulo \<lparr>ident = 2, titulo = ''A'', autor = ''B'', disponivel = 1\<rparr> Nulo)\<rparr>,
              LivrosCarregados)"
proof -
  let ?B = "inserirTodos criarBiblioteca [(1, ''A'', ''B''), (2, [], ''C'')]"
  have 1: "abb (raiz ?B)"
    by (simp add: inserirTodos_def inserirLivro_def criarBiblioteca_def criarLivro_def)
  have 2: "listarLivrosRecursivo (raiz ?B)
       = [\<lparr>ident = 1, titulo = ''A'', autor = ''B'', disponivel = 1\<rparr>,
          \<lparr>ident = 2, titulo = [], autor = ''C'', disponivel = 1\<rparr>]"
    by (simp add: inserirTodos_def inserirLivro_def criarBiblioteca_def criarLivro_def)
  have 3: "carregarLivros 100 100 \<lparr>ident = 0, titulo = [], autor = [], disponivel = 0\<rparr> criarBiblioteca
        (Some (salvarLivros (raiz ?B) []))
       = Inr (\<lparr>raiz = No Nulo \<lparr>ident = 1, titulo = ''A'', autor = ''B'', disponivel = 1\<rparr>
                        (No Nulo \<lparr>ident = 2, titulo = ''A'', autor = ''B'', disponivel = 1\<rparr> Nulo)\<rparr>,
              LivrosCarregados)"
    by code_simp
  from 1 2 3 show ?thesis by blast
qed





text \<open>
  C7. While a file is loaded, a line that does not give the four fields is to
  be skipped with a diagnostic: no record is inserted for it, and the load
  goes on with the next line. The loader does not do this. It tests the
  result of \<open>fopen\<close> and the result of \<open>buscarLivro\<close>, but it does not read the
  value of \<open>sscanf\<close>, so that after a line that gives fewer fields the loop
  inserts with whatever the locals hold. In the file with the lines \<open>1|A|B|1\<close>
  and \<open>2\<close> the second line gives one field, the identifier; the load inserts
  a record 2 for it, with the title, the author and the availability that the
  first line left in the locals, and prints the message of a load without
  fault and no other.
\<close>

theorem linha_incompleta_inserida:
  "sscanf_linha 100 100 \<lparr>ident = 1, titulo = ''A'', autor = ''B'', disponivel = 1\<rparr>
         [CHR ''2'', CHR 0x0A]
       = Inr (\<lparr>ident = 2, titulo = ''A'', autor = ''B'', disponivel = 1\<rparr>, 1)
   \<and> carregarLivros 100 100 \<lparr>ident = 0, titulo = [], autor = [], disponivel = 0\<rparr> criarBiblioteca
         (Some [CHR ''1'', CHR ''|'', CHR ''A'', CHR ''|'', CHR ''B'', CHR ''|'', CHR ''1'', CHR 0x0A,
                CHR ''2'', CHR 0x0A])
       = Inr (\<lparr>raiz = No Nulo \<lparr>ident = 1, titulo = ''A'', autor = ''B'', disponivel = 1\<rparr>
                        (No Nulo \<lparr>ident = 2, titulo = ''A'', autor = ''B'', disponivel = 1\<rparr> Nulo)\<rparr>,
              LivrosCarregados)"
  by code_simp

end
